theory Spec2Isabelle
  imports Complex_Main "HOL-Library.AList" "HOL-Library.Char_ord"
begin

section \<open>Python built-ins used by \<^verbatim>\<open>utils/helpers.py\<close>\<close>

text \<open>
  The functions of \<^verbatim>\<open>utils/helpers.py\<close> that carry logic of their own are
  \<^verbatim>\<open>parse_page_numbers\<close>, \<^verbatim>\<open>extract_text\<close>, \<^verbatim>\<open>extract_images\<close>,
  \<^verbatim>\<open>hex_to_rgba\<close>, \<^verbatim>\<open>draw_watermark_grid\<close>, \<^verbatim>\<open>merge_watermark_into_pdf\<close> and
  \<^verbatim>\<open>create_watermark_canvas\<close>. They lean on a handful of Python built-ins
  (\<^verbatim>\<open>str.split\<close>, \<^verbatim>\<open>str.strip\<close>, \<^verbatim>\<open>str.lstrip\<close>, slicing, \<^verbatim>\<open>int\<close>, \<^verbatim>\<open>range\<close>),
  which are modelled first, as CPython implements them.

  A Python string is a \<^typ>\<open>string\<close>: a list of characters, each a code point below 256.
  Python integers are \<^typ>\<open>int\<close>. A finite Python float is read as the rational number it
  denotes (\<^typ>\<open>rat\<close>); the quotient \<^verbatim>\<open>n / 255\<close> is kept as the exact rational, of which
  the Python float is the nearest double. Every exception the modelled code can raise is a
  value of the type \<^verbatim>\<open>error\<close>. The cap of the interpreter on the number of digits that
  \<^verbatim>\<open>int\<close> converts is part of the model, at its default of 4300. The memory of the
  machine is not: a list holds as many elements as are put into it, where the interpreter
  gives up on a list it cannot allocate or on a range of more than \<^verbatim>\<open>sys.maxsize\<close>
  elements.
\<close>

datatype error = ValueError | IndexError

text \<open>\<^verbatim>\<open>str.isspace\<close> on one character: the characters \<^verbatim>\<open>str.strip()\<close> removes.\<close>

definition is_space :: "char \<Rightarrow> bool" where
  "is_space c = (c \<in> set [CHR 0x09, CHR 0x0A, CHR 0x0B, CHR 0x0C, CHR 0x0D,
                            CHR 0x1C, CHR 0x1D, CHR 0x1E, CHR 0x1F, CHR 0x20,
                            CHR 0x85, CHR 0xA0])"

text \<open>
  The characters \<^verbatim>\<open>int\<close> skips around a literal: the C locale's white space, and the
  two non-ASCII spaces that the conversion to ASCII turns into a blank. The separators
  \<^verbatim>\<open>\x1c\<close> to \<^verbatim>\<open>\x1f\<close> are stripped by \<^verbatim>\<open>str.strip\<close> but rejected by \<^verbatim>\<open>int\<close>.
\<close>

definition int_space :: "char \<Rightarrow> bool" where
  "int_space c = (c \<in> set [CHR 0x09, CHR 0x0A, CHR 0x0B, CHR 0x0C, CHR 0x0D,
                             CHR 0x20, CHR 0x85, CHR 0xA0])"

text \<open>\<^verbatim>\<open>s.strip()\<close>\<close>

definition strip :: "string \<Rightarrow> string" where
  "strip s = rev (dropWhile is_space (rev (dropWhile is_space s)))"

text \<open>\<^verbatim>\<open>s.lstrip(chars)\<close>: drops every leading character that occurs in \<^verbatim>\<open>chars\<close>.\<close>

definition lstrip_chars :: "string \<Rightarrow> string \<Rightarrow> string" where
  "lstrip_chars chars s = dropWhile (\<lambda>c. c \<in> set chars) s"

text \<open>
  \<^verbatim>\<open>s.split(sep)\<close> for a separator of one character. The result is never empty, so
  the first case of the inner distinction is never taken.
\<close>

fun split_on :: "char \<Rightarrow> string \<Rightarrow> string list" where
  "split_on sep [] = [[]]"
| "split_on sep (c # cs) =
     (if c = sep then [] # split_on sep cs
      else (case split_on sep cs of
              [] \<Rightarrow> [[c]]
            | p # ps \<Rightarrow> (c # p) # ps))"

text \<open>\<^verbatim>\<open>s[i:j]\<close> for \<^verbatim>\<open>0 <= i <= j\<close>: the slice is cut short at the end of the string.\<close>

definition slice :: "string \<Rightarrow> nat \<Rightarrow> nat \<Rightarrow> string" where
  "slice s i j = take (j - i) (drop i s)"

text \<open>
  The digit table of \<^verbatim>\<open>int\<close> (\<^verbatim>\<open>_PyLong_DigitValue\<close>): 0 to 9 for the decimal digits,
  10 to 35 for the letters of either case, 37 for every other character.
\<close>

definition digit_value :: "char \<Rightarrow> nat" where
  "digit_value c =
     (let n = (of_char c :: nat)
      in if 48 \<le> n \<and> n \<le> 57 then n - 48
         else if 97 \<le> n \<and> n \<le> 122 then n - 87
         else if 65 \<le> n \<and> n \<le> 90 then n - 55
         else 37)"

text \<open>
  The digit loop of \<^verbatim>\<open>int\<close>: it consumes the longest run of digits of the base and
  underscores, fails on two underscores in a row, and returns the value read, the number of
  digits read, the last character consumed and the rest of the string.
\<close>

fun scan_digits ::
  "nat \<Rightarrow> char \<Rightarrow> int \<Rightarrow> nat \<Rightarrow> string \<Rightarrow> (int \<times> nat \<times> char \<times> string) option" where
  "scan_digits base prev z n [] = Some (z, n, prev, [])"
| "scan_digits base prev z n (c # cs) =
     (if c = CHR ''_'' then
        (if prev = CHR ''_'' then None else scan_digits base c z n cs)
      else if digit_value c < base then
        scan_digits base c (z * int base + int (digit_value c)) (Suc n) cs
      else Some (z, n, prev, c # cs))"

text \<open>
  The cap on the digits of a literal (\<^verbatim>\<open>sys.int_info.default_max_str_digits\<close>). It applies
  to the bases that are not a power of two; a literal with more digits raises
  \<^verbatim>\<open>ValueError\<close>. Leading zeros count as digits, underscores do not.
\<close>

definition max_str_digits :: nat where
  "max_str_digits = 4300"

definition binary_base :: "nat \<Rightarrow> bool" where
  "binary_base base = (base \<in> set [2, 4, 8, 16, 32])"

text \<open>The prefix \<^verbatim>\<open>0x\<close>, \<^verbatim>\<open>0o\<close> or \<^verbatim>\<open>0b\<close> of the base, and one underscore after it.\<close>

definition skip_prefix :: "nat \<Rightarrow> string \<Rightarrow> string" where
  "skip_prefix base s =
     (case s of
        z # x # cs \<Rightarrow>
          if z = CHR ''0'' \<and>
             (base = 16 \<and> (x = CHR ''x'' \<or> x = CHR ''X'') \<or>
              base = 8 \<and> (x = CHR ''o'' \<or> x = CHR ''O'') \<or>
              base = 2 \<and> (x = CHR ''b'' \<or> x = CHR ''B''))
          then (case cs of
                  [] \<Rightarrow> cs
                | u # cs' \<Rightarrow> if u = CHR ''_'' then cs' else cs)
          else s
      | _ \<Rightarrow> s)"

text \<open>
  \<^verbatim>\<open>int(s, base)\<close> for a string and an explicit base from 2 to 36 (\<^verbatim>\<open>int(s)\<close> is base 10):
  white space, an optional sign, the prefix of the base, digits with single underscores
  between them, white space. Anything else raises \<^verbatim>\<open>ValueError\<close>, and so does a
  literal with more digits than the cap.
\<close>

definition split_sign :: "string \<Rightarrow> bool \<times> string" where
  "split_sign s =
     (case s of
        [] \<Rightarrow> (False, s)
      | c # cs \<Rightarrow> if c = CHR ''+'' then (False, cs)
                 else if c = CHR ''-'' then (True, cs)
                 else (False, s))"

definition int_magnitude :: "nat \<Rightarrow> string \<Rightarrow> error + int" where
  "int_magnitude base s2 =
     (let s3 = skip_prefix base s2
      in case s3 of
           [] \<Rightarrow> Inl ValueError
         | u # _ \<Rightarrow>
             if u = CHR ''_'' then Inl ValueError
             else (case scan_digits base (CHR 0x00) 0 0 s3 of
                     None \<Rightarrow> Inl ValueError
                   | Some (z, n, prev, rest) \<Rightarrow>
                       if prev = CHR ''_'' \<or>
                          (\<not> binary_base base \<and> max_str_digits < n) \<or>
                          rest = s3 \<or> dropWhile int_space rest \<noteq> []
                       then Inl ValueError
                       else Inr z))"

definition py_int :: "nat \<Rightarrow> string \<Rightarrow> error + int" where
  "py_int base s =
     (case split_sign (dropWhile int_space s) of
        (neg, s2) \<Rightarrow>
          (case int_magnitude base s2 of
             Inl e \<Rightarrow> Inl e
           | Inr z \<Rightarrow> Inr (if neg then - z else z)))"

text \<open>
  \<^verbatim>\<open>range(start, stop, step)\<close> as the list of its elements. A zero step raises
  \<^verbatim>\<open>ValueError\<close>; \<^verbatim>\<open>range(start, stop)\<close> has step 1.
\<close>

function range_up :: "int \<Rightarrow> int \<Rightarrow> int \<Rightarrow> int list" where
  "range_up x stop step =
     (if 0 < step \<and> x < stop then x # range_up (x + step) stop step else [])"
  by pat_completeness auto
termination
  by (relation "measure (\<lambda>(x, stop, step). nat (stop - x))") auto

function range_down :: "int \<Rightarrow> int \<Rightarrow> int \<Rightarrow> int list" where
  "range_down x stop step =
     (if step < 0 \<and> stop < x then x # range_down (x + step) stop step else [])"
  by pat_completeness auto
termination
  by (relation "measure (\<lambda>(x, stop, step). nat (x - stop))") auto

declare range_up.simps [simp del] range_down.simps [simp del]

definition py_range :: "int \<Rightarrow> int \<Rightarrow> int \<Rightarrow> error + int list" where
  "py_range start stop step =
     (if step = 0 then Inl ValueError
      else if 0 < step then Inr (range_up start stop step)
      else Inr (range_down start stop step))"

definition py_range2 :: "int \<Rightarrow> int \<Rightarrow> int list" where
  "py_range2 start stop = range_up start stop 1"

text \<open>
  \<^verbatim>\<open>int(x)\<close> for a finite float: truncation towards zero.
\<close>

definition py_trunc :: "rat \<Rightarrow> int" where
  "py_trunc x = (if 0 \<le> x then \<lfloor>x\<rfloor> else \<lceil>x\<rceil>)"

text \<open>
  \<^verbatim>\<open>xs[i]\<close> on a sequence: a negative index counts from the end, an index out of range
  raises \<^verbatim>\<open>IndexError\<close>.
\<close>

definition py_index :: "'a list \<Rightarrow> int \<Rightarrow> error + 'a" where
  "py_index xs i =
     (if 0 \<le> i then
        (if i < int (length xs) then Inr (xs ! nat i) else Inl IndexError)
      else if 0 \<le> int (length xs) + i then Inr (xs ! nat (int (length xs) + i))
      else Inl IndexError)"

section \<open>The page-range parser\<close>

text \<open>
  \<^verbatim>\<open>start, end = map(int, part.split("-"))\<close>: the unpacking draws the converted pieces
  one at a time. A piece that does not convert, a second piece that is missing and a third
  piece that is present all raise \<^verbatim>\<open>ValueError\<close>.
\<close>

fun unpack2 :: "(error + int) list \<Rightarrow> error + (int \<times> int)" where
  "unpack2 [] = Inl ValueError"
| "unpack2 (Inl e # _) = Inl e"
| "unpack2 [Inr a] = Inl ValueError"
| "unpack2 (Inr a # Inl e # _) = Inl e"
| "unpack2 [Inr a, Inr b] = Inr (a, b)"
| "unpack2 (Inr a # Inr b # Inl e # _) = Inl e"
| "unpack2 (Inr a # Inr b # Inr c # _) = Inl ValueError"

text \<open>One turn of the loop over the parts: the page numbers the part adds.\<close>

definition parse_part :: "string \<Rightarrow> error + int list" where
  "parse_part part0 =
     (let part = strip part0
      in if CHR ''-'' \<in> set part then
           (case unpack2 (map (py_int 10) (split_on (CHR ''-'') part)) of
              Inl e \<Rightarrow> Inl e
            | Inr (start, end) \<Rightarrow> Inr (py_range2 start (end + 1)))
         else
           (case py_int 10 part of
              Inl e \<Rightarrow> Inl e
            | Inr v \<Rightarrow> Inr [v]))"

fun parse_loop :: "string list \<Rightarrow> int list \<Rightarrow> error + int list" where
  "parse_loop [] parsed_page_numbers = Inr parsed_page_numbers"
| "parse_loop (part # parts) parsed_page_numbers =
     (case parse_part part of
        Inl e \<Rightarrow> Inl e
      | Inr ns \<Rightarrow> parse_loop parts (parsed_page_numbers @ ns))"

definition parse_page_numbers :: "string \<Rightarrow> error + int list" where
  "parse_page_numbers page_numbers_str =
     (case parse_loop (split_on (CHR '','') page_numbers_str) [] of
        Inl e \<Rightarrow> Inl e
      | Inr parsed_page_numbers \<Rightarrow> Inr (map (\<lambda>i. i - 1) parsed_page_numbers))"

section \<open>Text and image extraction\<close>

text \<open>
  The reader of the PDF library is the list of its pages. What the library extracts from a
  page is a parameter: \<^verbatim>\<open>page.extract_text\<close> takes the extraction mode, \<^verbatim>\<open>page.images\<close>
  gives the images as pairs of data and name. Both operations return, beside their result,
  the arguments of every call of \<^verbatim>\<open>parse_page_numbers\<close> they made, in order.
\<close>

datatype extraction_mode = Plain | Layout

fun text_loop :: "('p \<Rightarrow> string) \<Rightarrow> 'p list \<Rightarrow> int list \<Rightarrow> string \<Rightarrow> error + string" where
  "text_loop page_text reader [] text = Inr text"
| "text_loop page_text reader (page # pages) text =
     (case py_index reader page of
        Inl e \<Rightarrow> Inl e
      | Inr p \<Rightarrow> text_loop page_text reader pages (text @ '' '' @ page_text p))"

definition extract_text ::
  "(extraction_mode \<Rightarrow> 'p \<Rightarrow> string) \<Rightarrow> 'p list \<Rightarrow> string \<Rightarrow> extraction_mode
     \<Rightarrow> (error + string) \<times> string list" where
  "extract_text page_extract_text reader page_numbers_str mode =
     (if page_numbers_str = ''all'' then
        (Inr (foldl (\<lambda>text page. text @ '' '' @ page_extract_text mode page) [] reader), [])
      else
        (case parse_page_numbers page_numbers_str of
           Inl e \<Rightarrow> (Inl e, [page_numbers_str])
         | Inr pages \<Rightarrow>
             (text_loop (page_extract_text Plain) reader pages [], [page_numbers_str])))"

text \<open>
  A dictionary is an association list in insertion order: storing under a key that is
  present replaces its value in place, a new key goes to the end.
\<close>

definition dict_update :: "('k \<times> 'v) list \<Rightarrow> ('k \<times> 'v) list \<Rightarrow> ('k \<times> 'v) list" where
  "dict_update d kvs = fold (\<lambda>(k, v). AList.update k v) kvs d"

fun images_loop ::
  "('p \<Rightarrow> ('d \<times> 'n) list) \<Rightarrow> 'p list \<Rightarrow> int list \<Rightarrow> ('d \<times> 'n) list \<Rightarrow> error + ('d \<times> 'n) list" where
  "images_loop page_images reader [] images = Inr images"
| "images_loop page_images reader (page # pages) images =
     (case py_index reader page of
        Inl e \<Rightarrow> Inl e
      | Inr p \<Rightarrow>
          images_loop page_images reader pages (dict_update images (dict_update [] (page_images p))))"

definition extract_images ::
  "('p \<Rightarrow> ('d \<times> 'n) list) \<Rightarrow> 'p list \<Rightarrow> string \<Rightarrow> (error + ('d \<times> 'n) list) \<times> string list" where
  "extract_images page_images reader page_numbers_str =
     (if page_numbers_str = ''all'' then
        (Inr (foldl (\<lambda>images page. dict_update images (dict_update [] (page_images page))) [] reader), [])
      else
        (case parse_page_numbers page_numbers_str of
           Inl e \<Rightarrow> (Inl e, [page_numbers_str])
         | Inr pages \<Rightarrow> (images_loop page_images reader pages [], [page_numbers_str])))"

section \<open>The watermark\<close>

text \<open>
  \<^verbatim>\<open>hex_to_rgba\<close>: every leading \<^verbatim>\<open>#\<close> is stripped, then the slices \<^verbatim>\<open>[0:2]\<close>, \<^verbatim>\<open>[2:4]\<close>
  and \<^verbatim>\<open>[4:6]\<close> are converted in this order by \<^verbatim>\<open>int(_, 16)\<close> and divided by 255.
\<close>

definition hex_to_rgba :: "string \<Rightarrow> error + (rat \<times> rat \<times> rat)" where
  "hex_to_rgba hex_color0 =
     (let hex_color = lstrip_chars ''#'' hex_color0
      in case py_int 16 (slice hex_color 0 2) of
           Inl e \<Rightarrow> Inl e
         | Inr r \<Rightarrow>
            (case py_int 16 (slice hex_color 2 4) of
               Inl e \<Rightarrow> Inl e
             | Inr g \<Rightarrow>
                (case py_int 16 (slice hex_color 4 6) of
                   Inl e \<Rightarrow> Inl e
                 | Inr b \<Rightarrow> Inr (of_int r / 255, of_int g / 255, of_int b / 255))))"

text \<open>
  The canvas of the drawing library is its page size and the drawing operations issued
  on it so far, in order.
\<close>

datatype canvas_op =
    SetFont string int
  | SetFillColorRGB rat rat rat
  | SetFillAlpha rat
  | SaveState
  | Translate int int
  | Rotate int
  | DrawCentredString int int string
  | RestoreState
  | Save

record canvas =
  pagesize :: "rat \<times> rat"
  ops :: "canvas_op list"

definition issue :: "canvas_op list \<Rightarrow> canvas \<Rightarrow> canvas" where
  "issue new can = can\<lparr>ops := ops can @ new\<rparr>"

text \<open>The body of the inner loop of \<^verbatim>\<open>draw_watermark_grid\<close>: one tile at \<^verbatim>\<open>(x, y)\<close>.\<close>

definition draw_tile :: "string \<Rightarrow> int \<Rightarrow> int \<Rightarrow> canvas \<Rightarrow> canvas" where
  "draw_tile stamp_label x y can =
     issue [SaveState, Translate x y, Rotate 45, DrawCentredString 0 0 stamp_label, RestoreState] can"

text \<open>The outer loop: for every \<^verbatim>\<open>x\<close> the range of the \<^verbatim>\<open>y\<close> is built anew.\<close>

fun grid_loop :: "string \<Rightarrow> int \<Rightarrow> rat \<Rightarrow> int list \<Rightarrow> canvas \<Rightarrow> error + canvas" where
  "grid_loop stamp_label step_y height [] can = Inr can"
| "grid_loop stamp_label step_y height (x # xs) can =
     (case py_range (- 100) (py_trunc height + 100) step_y of
        Inl e \<Rightarrow> Inl e
      | Inr ys \<Rightarrow> grid_loop stamp_label step_y height xs (fold (draw_tile stamp_label x) ys can))"

definition draw_watermark_grid ::
  "canvas \<Rightarrow> string \<Rightarrow> int \<Rightarrow> int \<Rightarrow> rat \<Rightarrow> rat \<Rightarrow> error + canvas" where
  "draw_watermark_grid can stamp_label step_x step_y width height =
     (case py_range (- 100) (py_trunc width + 100) step_x of
        Inl e \<Rightarrow> Inl e
      | Inr xs \<Rightarrow> grid_loop stamp_label step_y height xs can)"

text \<open>The tile origins of a canvas: the arguments of its \<^verbatim>\<open>translate\<close> operations.\<close>

fun origins :: "canvas_op list \<Rightarrow> (int \<times> int) list" where
  "origins [] = []"
| "origins (Translate x y # os) = (x, y) # origins os"
| "origins (_ # os) = origins os"

text \<open>The page size \<^verbatim>\<open>letter\<close> of the drawing library: 8.5 by 11 inches of 72 points.\<close>

definition letter :: "rat \<times> rat" where
  "letter = (612, 792)"

definition create_watermark_canvas :: "string \<Rightarrow> int \<Rightarrow> string \<Rightarrow> rat \<Rightarrow> error + canvas" where
  "create_watermark_canvas stamp_label stamp_size stamp_color stamp_transparency =
     (let can = issue [SetFont ''Helvetica'' stamp_size] \<lparr>pagesize = letter, ops = []\<rparr>
      in case hex_to_rgba stamp_color of
           Inl e \<Rightarrow> Inl e
         | Inr (r, g, b) \<Rightarrow>
            (case draw_watermark_grid
                    (issue [SetFillColorRGB r g b, SetFillAlpha stamp_transparency, SaveState] can)
                    stamp_label 150 100 (fst letter) (snd letter) of
               Inl e \<Rightarrow> Inl e
             | Inr can' \<Rightarrow> Inr (issue [Save] can')))"

text \<open>
  \<^verbatim>\<open>merge_watermark_into_pdf\<close>: a document is the list of its pages, as the reader of
  the PDF library yields them and as its writer collects them. The page merge of the
  library is the parameter \<^verbatim>\<open>merge_page\<close>, which takes the page, the page merged into it
  and the flag \<^verbatim>\<open>over\<close>, and gives the page after the merge.
\<close>

definition merge_watermark_into_pdf ::
  "('p \<Rightarrow> 'p \<Rightarrow> bool \<Rightarrow> 'p) \<Rightarrow> 'p list \<Rightarrow> 'p list \<Rightarrow> error + 'p list" where
  "merge_watermark_into_pdf merge_page pdf watermark =
     (case py_index watermark 0 of
        Inl e \<Rightarrow> Inl e
      | Inr watermark_page \<Rightarrow>
          Inr (foldl (\<lambda>writer page. writer @ [merge_page page watermark_page False]) [] pdf))"

text \<open>
  Modelled from the spec: the page merge of the PDF library, which is not part of the
  repository. A page is the list of its content layers in painting order; merging overlays
  one page's content beneath or above the other's without altering either (glossary,
  Compositing/merge), above when \<^verbatim>\<open>over\<close> is set and beneath when it is not.
\<close>

definition layered_merge :: "'l list \<Rightarrow> 'l list \<Rightarrow> bool \<Rightarrow> 'l list" where
  "layered_merge page page2 over = (if over then page @ page2 else page2 @ page)"

section \<open>Notions of the specification\<close>

text \<open>
  A page-range spec is a string of tokens separated by commas, white space around a token
  being insignificant. A numeral is a non-empty string of decimal digits, of no more digits
  than \<^verbatim>\<open>int\<close> converts. A token is syntactically well formed when it is a numeral, or two
  numerals separated by one hyphen; it is valid when, in addition, its numbers are at least
  1 and the first of a range is not above the second.
\<close>

definition is_digit :: "char \<Rightarrow> bool" where
  "is_digit c = (CHR ''0'' \<le> c \<and> c \<le> CHR ''9'')"

definition digits :: "string \<Rightarrow> bool" where
  "digits s = (s \<noteq> [] \<and> list_all is_digit s)"

definition dec_value :: "string \<Rightarrow> int" where
  "dec_value s = foldl (\<lambda>z c. 10 * z + (int (of_char c) - 48)) 0 s"

definition numeral :: "string \<Rightarrow> bool" where
  "numeral s = (digits s \<and> length s \<le> max_str_digits)"

definition tokens :: "string \<Rightarrow> string list" where
  "tokens s = map strip (split_on (CHR '','') s)"

definition wf_token :: "string \<Rightarrow> bool" where
  "wf_token t =
     (case split_on (CHR ''-'') t of
        [a] \<Rightarrow> numeral a
      | [a, b] \<Rightarrow> numeral a \<and> numeral b
      | _ \<Rightarrow> False)"

definition wf_spec :: "string \<Rightarrow> bool" where
  "wf_spec s = list_all wf_token (tokens s)"



text \<open>
  The page-index list of the specification: every token is expanded, a single number to
  itself and a range to its integers in ascending order, the expansions are concatenated
  in token order, and one is subtracted from every value.
\<close>

definition token_pages :: "string \<Rightarrow> int list" where
  "token_pages t =
     (case split_on (CHR ''-'') t of
        [a] \<Rightarrow> [dec_value a]
      | [a, b] \<Rightarrow> [dec_value a..dec_value b]
      | _ \<Rightarrow> [])"

definition spec_parse :: "string \<Rightarrow> int list" where
  "spec_parse s = map (\<lambda>v. v - 1) (concat (map token_pages (tokens s)))"

text \<open>
  The longest list the interpreter represents has \<^verbatim>\<open>sys.maxsize\<close> elements, on a 64-bit
  build. A range token fits when its range has no more integers than that.
\<close>

definition ssize_max :: int where
  "ssize_max = 2 ^ 63 - 1"

definition range_fits :: "string \<Rightarrow> bool" where
  "range_fits t =
     (case split_on (CHR ''-'') t of
        [a, b] \<Rightarrow> dec_value b + 1 - dec_value a \<le> ssize_max
      | _ \<Rightarrow> True)"

text \<open>
  The tokens the parser must reject. A token is non-numeric when it holds a character that
  no integer literal holds (anything but a decimal digit, a sign, an underscore or white
  space), or when one of its pieces between hyphens is not a literal that \<^verbatim>\<open>int\<close>
  accepts. It is malformed when it is empty, non-numeric, or has more than one hyphen.
\<close>

definition literal_char :: "char \<Rightarrow> bool" where
  "literal_char c = (is_digit c \<or> c = CHR ''+'' \<or> c = CHR ''-'' \<or> c = CHR ''_'' \<or> int_space c)"

definition non_numeric :: "string \<Rightarrow> bool" where
  "non_numeric t =
     (list_ex (\<lambda>c. \<not> literal_char c) t \<or>
      list_ex (\<lambda>p. py_int 10 p = Inl ValueError) (split_on (CHR ''-'') t))"

definition malformed_token :: "string \<Rightarrow> bool" where
  "malformed_token t = (t = [] \<or> non_numeric t \<or> 2 \<le> count_list t (CHR ''-''))"

text \<open>
  Hexadecimal digits and their values; the channel value that two of them denote, divided
  by 255; and the strings of at most two characters that \<^verbatim>\<open>int(_, 16)\<close> accepts: one or two
  hexadecimal digits, or one such digit with white space or a sign before it or white space
  after it.
\<close>

definition is_hex :: "char \<Rightarrow> bool" where
  "is_hex c = (is_digit c \<or> CHR ''a'' \<le> c \<and> c \<le> CHR ''f'' \<or> CHR ''A'' \<le> c \<and> c \<le> CHR ''F'')"

definition hex_value :: "char \<Rightarrow> int" where
  "hex_value c =
     (if is_digit c then int (of_char c) - 48
      else if CHR ''a'' \<le> c \<and> c \<le> CHR ''f'' then int (of_char c) - 87
      else int (of_char c) - 55)"

fun accepted16 :: "string \<Rightarrow> bool" where
  "accepted16 [a] = is_hex a"
| "accepted16 [a, b] =
     (is_hex a \<and> is_hex b \<or>
      (int_space a \<or> a = CHR ''+'' \<or> a = CHR ''-'') \<and> is_hex b \<or>
      is_hex a \<and> int_space b)"
| "accepted16 _ = False"

definition channel :: "char \<Rightarrow> char \<Rightarrow> rat" where
  "channel a b = of_int (16 * hex_value a + hex_value b) / 255"

section \<open>Properties of the built-ins\<close>

lemma is_digit_value:
  "is_digit c \<Longrightarrow> digit_value c < 10 \<and> int (digit_value c) = int (of_char c) - 48"
  by (auto simp: is_digit_def digit_value_def less_eq_char_def Let_def)

lemma is_digit_not_special:
  "is_digit c \<Longrightarrow>
     c \<noteq> CHR ''_'' \<and> c \<noteq> CHR ''+'' \<and> c \<noteq> CHR ''-'' \<and> c \<noteq> CHR '','' \<and>
     \<not> int_space c \<and> \<not> is_space c"
  by (auto simp: is_digit_def int_space_def is_space_def less_eq_char_def)

lemma scan_digits_all:
  "list_all is_digit s \<Longrightarrow>
   scan_digits 10 prev z n s =
     Some (foldl (\<lambda>z c. 10 * z + (int (of_char c) - 48)) z s, n + length s, last (prev # s), [])"
proof (induction s arbitrary: prev z n)
  case Nil
  then show ?case by simp
next
  case (Cons c cs)
  then have c: "is_digit c" and cs: "list_all is_digit cs" by simp_all
  from c have "c \<noteq> CHR ''_''" "digit_value c < 10" "int (digit_value c) = int (of_char c) - 48"
    using is_digit_not_special is_digit_value by blast+
  then show ?case using Cons.IH [OF cs] by (simp add: mult.commute)
qed

lemma int_magnitude_all_digits:
  assumes "digits s"
  shows "int_magnitude 10 s =
           (if max_str_digits < length s then Inl ValueError else Inr (dec_value s))"
proof -
  from assms obtain c cs where s: "s = c # cs" and c: "is_digit c"
    and all: "list_all is_digit (c # cs)"
    by (cases s) (auto simp: digits_def)
  have nu: "c \<noteq> CHR ''_''"
    using c is_digit_not_special by blast
  have sp: "skip_prefix 10 (c # cs) = c # cs"
    by (simp add: skip_prefix_def split: list.splits)
  have "last (c # cs) \<in> set (c # cs)" by (rule last_in_set) simp
  then have "is_digit (last (c # cs))"
    using all by (auto simp: list_all_iff)
  then have last: "last (c # cs) \<noteq> CHR ''_''"
    using is_digit_not_special by blast
  have sc: "scan_digits 10 (CHR 0x00) 0 0 (c # cs) =
      Some (dec_value (c # cs), length (c # cs), last (c # cs), [])"
    using scan_digits_all [OF all, of "CHR 0x00" 0 0] by (simp add: dec_value_def)
  have nb: "\<not> binary_base 10" by (simp add: binary_base_def)
  show ?thesis
    unfolding s int_magnitude_def Let_def sp list.case sc
    using nu last nb by simp
qed

lemma py_int_all_digits:
  assumes "digits s"
  shows "py_int 10 s = (if max_str_digits < length s then Inl ValueError else Inr (dec_value s))"
proof -
  from assms obtain c cs where s: "s = c # cs" and c: "is_digit c"
    by (cases s) (auto simp: digits_def)
  have ns: "\<not> int_space c" "c \<noteq> CHR ''+''" "c \<noteq> CHR ''-''"
    using c is_digit_not_special by blast+
  then have "split_sign (dropWhile int_space s) = (False, s)"
    by (simp add: s split_sign_def)
  then show ?thesis
    using int_magnitude_all_digits [OF assms] by (simp add: py_int_def)
qed

lemma py_int_digits: "numeral s \<Longrightarrow> py_int 10 s = Inr (dec_value s)"
  by (simp add: numeral_def py_int_all_digits)

lemma py_int_long: "digits s \<Longrightarrow> max_str_digits < length s \<Longrightarrow> py_int 10 s = Inl ValueError"
  by (simp add: py_int_all_digits)

lemma split_on_not_Nil: "split_on sep s \<noteq> []"
  by (induction s) (auto split: list.splits)

lemma split_on_no_sep: "sep \<notin> set s \<Longrightarrow> split_on sep s = [s]"
  by (induction s) auto

lemma split_on_append: "sep \<notin> set p \<Longrightarrow> split_on sep (p @ sep # r) = p # split_on sep r"
  by (induction p) auto

lemma split_on_single: "split_on sep s = [a] \<Longrightarrow> s = a \<and> sep \<notin> set a"
proof (induction s arbitrary: a)
  case Nil
  then show ?case by simp
next
  case (Cons c cs)
  show ?case
  proof (cases "c = sep")
    case True
    with Cons.prems show ?thesis using split_on_not_Nil [of sep cs] by simp
  next
    case False
    with Cons.prems obtain p where p: "split_on sep cs = [p]" and a: "a = c # p"
      by (auto split: list.splits simp: split_on_not_Nil)
    from Cons.IH [OF p] False a show ?thesis by simp
  qed
qed

lemma split_on_pair:
  "split_on sep s = [a, b] \<Longrightarrow> s = a @ sep # b \<and> sep \<notin> set a \<and> sep \<notin> set b"
proof (induction s arbitrary: a)
  case Nil
  then show ?case by simp
next
  case (Cons c cs)
  show ?case
  proof (cases "c = sep")
    case True
    with Cons.prems have "a = []" "split_on sep cs = [b]" by simp_all
    with split_on_single [of sep cs b] True show ?thesis by simp
  next
    case False
    with Cons.prems obtain p where p: "split_on sep cs = [p, b]" and a: "a = c # p"
      by (auto split: list.splits simp: split_on_not_Nil)
    from Cons.IH [OF p] False a show ?thesis by simp
  qed
qed

lemma length_split_on: "length (split_on sep s) = Suc (count_list s sep)"
  by (induction s) (auto split: list.splits simp: split_on_not_Nil)

lemma range_up_upto: "range_up a (b + 1) 1 = [a..b]"
proof (induction a "b + 1" "1::int" rule: range_up.induct)
  case (1 x)
  show ?case
  proof (cases "x \<le> b")
    case True
    then have "range_up x (b + 1) 1 = x # range_up (x + 1) (b + 1) 1"
      by (subst range_up.simps) simp
    also have "range_up (x + 1) (b + 1) 1 = [x + 1..b]"
      using True by (intro "1.hyps") simp
    finally show ?thesis using True by (simp add: upto_rec1)
  next
    case False
    then show ?thesis by (subst range_up.simps) simp
  qed
qed

section \<open>The parser on well-formed input\<close>


lemma parse_part_wf:
  assumes "wf_token (strip p)"
  shows "parse_part p = Inr (token_pages (strip p))"
proof -
  let ?t = "strip p"
  from assms consider
    a where "split_on (CHR ''-'') ?t = [a]" "numeral a"
  | a b where "split_on (CHR ''-'') ?t = [a, b]" "numeral a" "numeral b"
    by (auto simp: wf_token_def split: list.splits)
  then show ?thesis
  proof cases
    case 1
    from split_on_single [OF 1(1)] have t: "?t = a" and no: "CHR ''-'' \<notin> set ?t" by simp_all
    show ?thesis
      using no py_int_digits [OF 1(2)] 1(1)
      by (simp add: parse_part_def token_pages_def t)
  next
    case 2
    from split_on_pair [OF 2(1)] have has: "CHR ''-'' \<in> set ?t" by simp
    show ?thesis
      using has py_int_digits [OF 2(2)] py_int_digits [OF 2(3)] 2(1)
      by (simp add: parse_part_def token_pages_def py_range2_def range_up_upto)
  qed
qed

lemma parse_loop_wf:
  "list_all (\<lambda>p. wf_token (strip p)) parts \<Longrightarrow>
   parse_loop parts acc = Inr (acc @ concat (map (\<lambda>p. token_pages (strip p)) parts))"
  by (induction parts arbitrary: acc) (simp_all add: parse_part_wf)

lemma parse_wf: "wf_spec s \<Longrightarrow> parse_page_numbers s = Inr (spec_parse s)"
  using parse_loop_wf [of "split_on (CHR '','') s" "[]"]
  by (simp add: wf_spec_def tokens_def parse_page_numbers_def spec_parse_def list_all_iff comp_def)



section \<open>The parser on malformed input\<close>

lemma strip_id: "s \<noteq> [] \<Longrightarrow> \<not> is_space (hd s) \<Longrightarrow> \<not> is_space (last s) \<Longrightarrow> strip s = s"
proof -
  assume s: "s \<noteq> []" and h: "\<not> is_space (hd s)" and l: "\<not> is_space (last s)"
  from h have 1: "dropWhile is_space s = s" by (simp add: dropWhile_eq_self_iff)
  from s l have 2: "dropWhile is_space (rev s) = rev s"
    by (simp add: dropWhile_eq_self_iff hd_rev)
  show ?thesis by (simp add: strip_def 1 2)
qed

lemma in_dropWhile: "c \<in> set xs \<Longrightarrow> \<not> P c \<Longrightarrow> c \<in> set (dropWhile P xs)"
  by (induction xs) auto

lemma scan_digits_keeps:
  "scan_digits base prev z n s = Some (z', n', prev', rest) \<Longrightarrow> c \<in> set s \<Longrightarrow>
   c \<noteq> CHR ''_'' \<Longrightarrow> \<not> digit_value c < base \<Longrightarrow> c \<in> set rest"
  by (induction s arbitrary: prev z n) (auto split: if_splits)

lemma int_magnitude_error: "int_magnitude base s = Inl e \<Longrightarrow> e = ValueError"
  by (cases e) (auto simp: int_magnitude_def Let_def split: list.splits option.splits if_splits)

lemma py_int_error: "py_int base s = Inl e \<Longrightarrow> e = ValueError"
  by (auto simp: py_int_def split: prod.splits sum.splits dest: int_magnitude_error)

lemma digit_value_10: "digit_value c < 10 \<Longrightarrow> is_digit c"
  by (auto simp: digit_value_def is_digit_def less_eq_char_def Let_def split: if_splits)

lemma int_magnitude_foreign:
  assumes c: "c \<in> set s" and nd: "\<not> digit_value c < 10" and nu: "c \<noteq> CHR ''_''"
    and ns: "\<not> int_space c"
  shows "int_magnitude 10 s = Inl ValueError"
proof -
  have sp: "skip_prefix 10 s = s" by (simp add: skip_prefix_def split: list.splits)
  have "int_magnitude 10 s = Inr v \<Longrightarrow> False" for v
  proof -
    assume a: "int_magnitude 10 s = Inr v"
    then obtain z n prev rest where sc: "scan_digits 10 (CHR 0x00) 0 0 s = Some (z, n, prev, rest)"
      and dr: "dropWhile int_space rest = []"
      by (auto simp: int_magnitude_def sp simp del: scan_digits.simps
               split: list.splits option.splits if_splits)
    from scan_digits_keeps [OF sc c nu nd] have "c \<in> set rest" .
    from in_dropWhile [of c rest int_space] this ns dr show False by simp
  qed
  then show ?thesis using int_magnitude_error [of 10 s] by (cases "int_magnitude 10 s") auto
qed

lemma split_sign_keeps:
  "split_sign xs = (neg, s2) \<Longrightarrow> c \<in> set xs \<Longrightarrow> c \<noteq> CHR ''+'' \<Longrightarrow> c \<noteq> CHR ''-'' \<Longrightarrow>
   c \<in> set s2"
  by (auto simp: split_sign_def split: list.splits if_splits)

lemma py_int_foreign:
  assumes c: "c \<in> set s" and f: "\<not> literal_char c"
  shows "py_int 10 s = Inl ValueError"
proof -
  from f have nd: "\<not> digit_value c < 10" and nu: "c \<noteq> CHR ''_''" and np: "c \<noteq> CHR ''+''"
    and nm: "c \<noteq> CHR ''-''" and ns: "\<not> int_space c"
    using digit_value_10 by (auto simp: literal_char_def)
  obtain neg s2 where ss: "split_sign (dropWhile int_space s) = (neg, s2)"
    by (cases "split_sign (dropWhile int_space s)") auto
  have c1: "c \<in> set (dropWhile int_space s)" using c ns by (rule in_dropWhile)
  have c2: "c \<in> set s2"
    using split_sign_keeps [OF ss c1 np nm] .
  show ?thesis
    using int_magnitude_foreign [OF c2 nd nu ns] by (simp add: py_int_def ss)
qed

lemma unpack2_Inr: "unpack2 xs = Inr (a, b) \<Longrightarrow> xs = [Inr a, Inr b]"
  by (induction xs rule: unpack2.induct) simp_all

lemma unpack2_error:
  "unpack2 xs = Inl e \<Longrightarrow> (\<And>x e'. x \<in> set xs \<Longrightarrow> x = Inl e' \<Longrightarrow> e' = ValueError) \<Longrightarrow> e = ValueError"
  by (induction xs rule: unpack2.induct) auto

lemma parse_part_error: "parse_part p = Inl e \<Longrightarrow> e = ValueError"
proof -
  assume a: "parse_part p = Inl e"
  show ?thesis
  proof (cases "CHR ''-'' \<in> set (strip p)")
    case True
    with a have "unpack2 (map (py_int 10) (split_on (CHR ''-'') (strip p))) = Inl e"
      by (auto simp: parse_part_def split: sum.splits)
    then show ?thesis
      by (rule unpack2_error) (auto dest: py_int_error [OF sym])
  next
    case False
    with a have "py_int 10 (strip p) = Inl e"
      by (auto simp: parse_part_def split: sum.splits)
    then show ?thesis by (rule py_int_error)
  qed
qed

lemma in_split_on:
  "c \<in> set s \<Longrightarrow> c \<noteq> sep \<Longrightarrow> \<exists>p \<in> set (split_on sep s). c \<in> set p"
  by (induction s) (auto split: list.splits simp: split_on_not_Nil)

lemma py_int_empty: "py_int base [] = Inl ValueError"
  by (simp add: py_int_def split_sign_def int_magnitude_def skip_prefix_def)

lemma parse_part_rejected_piece:
  assumes "q \<in> set (split_on (CHR ''-'') (strip p))" and "py_int 10 q = Inl ValueError"
  shows "parse_part p = Inl ValueError"
proof (cases "parse_part p")
  case (Inl e)
  then show ?thesis using parse_part_error by blast
next
  case (Inr ns)
  show ?thesis
  proof (cases "CHR ''-'' \<in> set (strip p)")
    case True
    with Inr obtain a b where "unpack2 (map (py_int 10) (split_on (CHR ''-'') (strip p))) = Inr (a, b)"
      by (auto simp: parse_part_def split: sum.splits)
    from unpack2_Inr [OF this] obtain x y where "split_on (CHR ''-'') (strip p) = [x, y]"
      "py_int 10 x = Inr a" "py_int 10 y = Inr b"
      by (auto simp: map_eq_Cons_conv)
    with assms show ?thesis by auto
  next
    case False
    then have "split_on (CHR ''-'') (strip p) = [strip p]" by (rule split_on_no_sep)
    with assms have "py_int 10 (strip p) = Inl ValueError" by simp
    with False Inr show ?thesis by (simp add: parse_part_def)
  qed
qed

lemma parse_part_many_hyphens:
  assumes "2 \<le> count_list (strip p) (CHR ''-'')"
  shows "parse_part p = Inl ValueError"
proof (cases "parse_part p")
  case (Inl e)
  then show ?thesis using parse_part_error by blast
next
  case (Inr ns)
  from assms have "CHR ''-'' \<in> set (strip p)"
    by (cases "CHR ''-'' \<in> set (strip p)") (simp_all add: count_list_0_iff)
  with Inr obtain a b where "unpack2 (map (py_int 10) (split_on (CHR ''-'') (strip p))) = Inr (a, b)"
    by (auto simp: parse_part_def split: sum.splits)
  from unpack2_Inr [OF this] have "length (split_on (CHR ''-'') (strip p)) = 2"
    by (auto simp: map_eq_Cons_conv)
  with assms show ?thesis by (simp add: length_split_on)
qed

lemma parse_part_malformed: "malformed_token (strip p) \<Longrightarrow> parse_part p = Inl ValueError"
proof -
  assume "malformed_token (strip p)"
  then consider "strip p = []"
    | c where "c \<in> set (strip p)" "\<not> literal_char c"
    | q where "q \<in> set (split_on (CHR ''-'') (strip p))" "py_int 10 q = Inl ValueError"
    | "2 \<le> count_list (strip p) (CHR ''-'')"
    by (auto simp: malformed_token_def non_numeric_def list_ex_iff)
  then show ?thesis
  proof cases
    case 1
    then show ?thesis by (simp add: parse_part_def py_int_empty)
  next
    case 2
    then have "c \<noteq> CHR ''-''" by (auto simp: literal_char_def)
    from in_split_on [OF 2(1) this] obtain q
      where q: "q \<in> set (split_on (CHR ''-'') (strip p))" and "c \<in> set q" by blast
    from py_int_foreign [OF this(2) 2(2)] q show ?thesis by (rule parse_part_rejected_piece [rotated])
  next
    case 3
    then show ?thesis by (rule parse_part_rejected_piece)
  next
    case 4
    then show ?thesis by (rule parse_part_many_hyphens)
  qed
qed

lemma parse_loop_error:
  "list_ex (\<lambda>p. parse_part p = Inl ValueError) parts \<Longrightarrow> parse_loop parts acc = Inl ValueError"
proof (induction parts arbitrary: acc)
  case Nil
  then show ?case by simp
next
  case (Cons p ps)
  show ?case
  proof (cases "parse_part p")
    case (Inl e)
    then show ?thesis using parse_part_error [OF Inl] by simp
  next
    case (Inr ns)
    with Cons.prems have "list_ex (\<lambda>p. parse_part p = Inl ValueError) ps" by simp
    from Cons.IH [OF this] Inr show ?thesis by simp
  qed
qed

text \<open>
  C6. For every input string that is empty, or that has a token which after trimming is
  empty, non-numeric or has more than one hyphen, the parser fails with \<^verbatim>\<open>ValueError\<close>
  (the ParseError of the specification) and returns no list at all. In particular
  \<^verbatim>\<open>parse("")\<close> and \<^verbatim>\<open>parse("a-b")\<close> fail.
\<close>

theorem parse_malformed_fails:
  "(s = [] \<or> list_ex malformed_token (tokens s) \<longrightarrow> parse_page_numbers s = Inl ValueError) \<and>
   parse_page_numbers '''' = Inl ValueError \<and>
   parse_page_numbers ''a-b'' = Inl ValueError"
proof (intro conjI impI)
  assume a: "s = [] \<or> list_ex malformed_token (tokens s)"
  have "list_ex malformed_token (tokens s)"
    using a by (auto simp: tokens_def strip_def malformed_token_def)
  then have "list_ex (\<lambda>p. parse_part p = Inl ValueError) (split_on (CHR '','') s)"
    by (auto simp: tokens_def list_ex_iff intro: parse_part_malformed)
  from parse_loop_error [OF this] show "parse_page_numbers s = Inl ValueError"
    by (simp add: parse_page_numbers_def)
next
  show "parse_page_numbers '''' = Inl ValueError" by code_simp
  show "parse_page_numbers ''a-b'' = Inl ValueError" by code_simp
qed

theorem parse_malformed_fails_witness:
  "list_ex malformed_token (tokens ''1-3,4-5-6'') \<and>
   list_ex malformed_token (tokens ''2,x'') \<and>
   list_ex malformed_token (tokens ''2,,3'') \<and>
   parse_page_numbers ''1-3,4-5-6'' = Inl ValueError \<and>
   parse_page_numbers ''2,x'' = Inl ValueError \<and>
   parse_page_numbers ''2,,3'' = Inl ValueError"
proof -
  have 1: "list_ex malformed_token (tokens ''1-3,4-5-6'')" by code_simp
  have 2: "list_ex malformed_token (tokens ''2,x'')" by code_simp
  have 3: "list_ex malformed_token (tokens ''2,,3'')" by code_simp
  from 1 2 3 parse_malformed_fails [of "''1-3,4-5-6''"] parse_malformed_fails [of "''2,x''"]
    parse_malformed_fails [of "''2,,3''"]
  show ?thesis by blast
qed

section \<open>Inverted ranges and unchecked bounds\<close>

lemma digits_ends: "digits a \<Longrightarrow> a \<noteq> [] \<and> is_digit (hd a) \<and> is_digit (last a)"
  by (cases a) (auto simp: digits_def list_all_iff)

lemma digits_no_special:
  "digits a \<Longrightarrow> CHR ''-'' \<notin> set a \<and> CHR '','' \<notin> set a"
  using is_digit_not_special by (auto simp: digits_def list_all_iff)

lemma single_token:
  assumes a: "digits a"
  shows "split_on (CHR '','') a = [a]" and "strip a = a" and "split_on (CHR ''-'') a = [a]"
proof -
  show "split_on (CHR '','') a = [a]" "split_on (CHR ''-'') a = [a]"
    using digits_no_special [OF a] by (simp_all add: split_on_no_sep)
  show "strip a = a"
    using digits_ends [OF a] is_digit_not_special by (intro strip_id) auto
qed

lemma range_token:
  assumes a: "digits a" and b: "digits b"
  shows "split_on (CHR '','') (a @ CHR ''-'' # b) = [a @ CHR ''-'' # b]"
    and "strip (a @ CHR ''-'' # b) = a @ CHR ''-'' # b"
    and "split_on (CHR ''-'') (a @ CHR ''-'' # b) = [a, b]"
proof -
  show "split_on (CHR '','') (a @ CHR ''-'' # b) = [a @ CHR ''-'' # b]"
    using digits_no_special [OF a] digits_no_special [OF b] by (intro split_on_no_sep) simp
  have "hd (a @ CHR ''-'' # b) = hd a" "last (a @ CHR ''-'' # b) = last b"
    using digits_ends [OF a] digits_ends [OF b] by simp_all
  then show "strip (a @ CHR ''-'' # b) = a @ CHR ''-'' # b"
    using digits_ends [OF a] digits_ends [OF b] is_digit_not_special
    by (intro strip_id) auto
  show "split_on (CHR ''-'') (a @ CHR ''-'' # b) = [a, b]"
    using digits_no_special [OF a] digits_no_special [OF b]
    by (simp add: split_on_append split_on_no_sep)
qed

lemma parse_part_inverted:
  assumes a: "numeral a" and b: "numeral b" and inv: "dec_value b < dec_value a"
  shows "parse_part (a @ CHR ''-'' # b) = Inr []"
proof -
  have d: "digits a" "digits b" using a b by (simp_all add: numeral_def)
  have "wf_token (strip (a @ CHR ''-'' # b))"
    using a b by (simp add: range_token [OF d] wf_token_def)
  from parse_part_wf [OF this] inv show ?thesis
    by (simp add: range_token [OF d] token_pages_def)
qed

lemma parse_long_number:
  assumes "digits a" and "max_str_digits < length a"
  shows "parse_page_numbers a = Inl ValueError"
proof -
  have "CHR ''-'' \<notin> set a" using digits_no_special [OF assms(1)] by simp
  then have "parse_part a = Inl ValueError"
    using py_int_long [OF assms] by (simp add: parse_part_def single_token [OF assms(1)])
  then show ?thesis
    by (simp add: parse_page_numbers_def single_token [OF assms(1)])
qed

text \<open>
  C1, as the code has it. The claim that an inverted range makes the parser fail does not
  hold: \<^verbatim>\<open>range(start, end + 1)\<close> is empty when \<^verbatim>\<open>start > end\<close>, and nothing checks the
  order. \<^verbatim>\<open>parse("3-1")\<close> returns the empty list.
\<close>

theorem inverted_range_counterexample: "parse_page_numbers ''3-1'' = Inr []"
  by code_simp

text \<open>
  C1, amended. A range token whose first integer is greater than its second, both
  numerals that \<^verbatim>\<open>int\<close> converts, is not an error: it adds no page index. Alone it parses
  to the empty list, and in front of further tokens it is skipped, the result being that
  of the rest of the string.
\<close>

theorem inverted_range_is_skipped:
  assumes "numeral a" and "numeral b" and "dec_value b < dec_value a"
  shows "parse_page_numbers (a @ ''-'' @ b) = Inr [] \<and>
         parse_page_numbers (a @ ''-'' @ b @ '','' @ rest) = parse_page_numbers rest"
proof
  have d: "digits a" "digits b" using assms by (simp_all add: numeral_def)
  have p: "parse_part (a @ CHR ''-'' # b) = Inr []"
    using assms by (rule parse_part_inverted)
  show "parse_page_numbers (a @ ''-'' @ b) = Inr []"
    using p by (simp add: parse_page_numbers_def range_token [OF d])
  have "CHR '','' \<notin> set (a @ CHR ''-'' # b)"
    using digits_no_special d by simp
  then have "split_on (CHR '','') ((a @ CHR ''-'' # b) @ CHR '','' # rest) =
       (a @ CHR ''-'' # b) # split_on (CHR '','') rest"
    by (rule split_on_append)
  then show "parse_page_numbers (a @ ''-'' @ b @ '','' @ rest) = parse_page_numbers rest"
    using p by (simp add: parse_page_numbers_def)
qed

theorem inverted_range_is_skipped_witness:
  "numeral ''3'' \<and> numeral ''1'' \<and> dec_value ''1'' < dec_value ''3'' \<and>
   parse_page_numbers ''3-1'' = Inr [] \<and>
   parse_page_numbers ''3-1,7'' = parse_page_numbers ''7''"
proof -
  have h: "numeral ''3''" "numeral ''1''" "dec_value ''1'' < dec_value ''3''" by code_simp+
  from inverted_range_is_skipped [OF h, of "''7''"] h show ?thesis by simp
qed

text \<open>
  C7, as the code has it. The claim that parsing succeeds whatever the magnitude of the
  values does not hold: \<^verbatim>\<open>int\<close> converts no more than 4300 digits, so a page number of
  4301 digits, syntactically a well formed integer, makes the parser fail.
\<close>

theorem long_number_counterexample:
  "parse_page_numbers (replicate 4301 (CHR ''1'')) = Inl ValueError"
  by (rule parse_long_number) (simp_all add: digits_def is_digit_def max_str_digits_def list_all_iff)

text \<open>
  C7, amended. The parser checks no bounds against any document: for every spec whose
  tokens are numerals of at most 4300 digits, or ranges of two such numerals that have no
  more than \<^verbatim>\<open>sys.maxsize\<close> integers, parsing succeeds with the expansion of the tokens,
  whatever the values; a single numeral parses to itself minus one, and \<^verbatim>\<open>parse("0")\<close>
  returns \<^verbatim>\<open>[-1]\<close>. A number of more than 4300 digits makes the parser fail.
\<close>

theorem parse_no_bounds_check:
  "(wf_spec s \<and> list_all range_fits (tokens s) \<longrightarrow> parse_page_numbers s = Inr (spec_parse s)) \<and>
   (numeral a \<longrightarrow> parse_page_numbers a = Inr [dec_value a - 1]) \<and>
   (digits a \<and> max_str_digits < length a \<longrightarrow> parse_page_numbers a = Inl ValueError) \<and>
   parse_page_numbers ''0'' = Inr [- 1]"
proof (intro conjI impI)
  assume "wf_spec s \<and> list_all range_fits (tokens s)"
  then show "parse_page_numbers s = Inr (spec_parse s)" by (simp add: parse_wf)
next
  assume a: "numeral a"
  then have d: "digits a" by (simp add: numeral_def)
  have "wf_spec a" using a by (simp add: wf_spec_def tokens_def single_token [OF d] wf_token_def)
  from parse_wf [OF this] show "parse_page_numbers a = Inr [dec_value a - 1]"
    by (simp add: spec_parse_def tokens_def single_token [OF d] token_pages_def)
next
  assume "digits a \<and> max_str_digits < length a"
  then show "parse_page_numbers a = Inl ValueError" by (simp add: parse_long_number)
next
  show "parse_page_numbers ''0'' = Inr [- 1]" by code_simp
qed

theorem parse_no_bounds_check_witness:
  "wf_spec ''0, 5-3,1000000-1000001'' \<and>
   list_all range_fits (tokens ''0, 5-3,1000000-1000001'') \<and>
   parse_page_numbers ''0, 5-3,1000000-1000001'' = Inr [- 1, 999999, 1000000] \<and>
   numeral ''123456789012345678901234567890'' \<and>
   parse_page_numbers ''123456789012345678901234567890'' = Inr [123456789012345678901234567889] \<and>
   digits (replicate 4301 (CHR ''0'')) \<and> max_str_digits < length (replicate 4301 (CHR ''0'')) \<and>
   parse_page_numbers (replicate 4301 (CHR ''0'')) = Inl ValueError"
proof -
  have w: "wf_spec ''0, 5-3,1000000-1000001''" by code_simp
  have f: "list_all range_fits (tokens ''0, 5-3,1000000-1000001'')" by code_simp
  have e: "spec_parse ''0, 5-3,1000000-1000001'' = [- 1, 999999, 1000000]" by code_simp
  have d: "numeral ''123456789012345678901234567890''" by code_simp
  have v: "dec_value ''123456789012345678901234567890'' = 123456789012345678901234567890"
    by code_simp
  have l: "digits (replicate 4301 (CHR ''0''))" "max_str_digits < length (replicate 4301 (CHR ''0''))"
    by (simp_all add: digits_def is_digit_def max_str_digits_def list_all_iff)
  from parse_no_bounds_check [of "''0, 5-3,1000000-1000001''" "''123456789012345678901234567890''"]
    parse_no_bounds_check [of "''0''" "replicate 4301 (CHR ''0'')"] w f e d v l
  show ?thesis by simp
qed

section \<open>The colour conversion\<close>

lemma hex_iff: "digit_value c < 16 \<longleftrightarrow> is_hex c"
  by (auto simp: digit_value_def is_hex_def is_digit_def less_eq_char_def Let_def)

lemma hex_value_eq: "is_hex c \<Longrightarrow> int (digit_value c) = hex_value c"
  by (auto simp: digit_value_def is_hex_def hex_value_def is_digit_def less_eq_char_def Let_def)

lemma hex_value_range: "is_hex c \<Longrightarrow> 0 \<le> hex_value c \<and> hex_value c \<le> 15"
  by (auto simp: is_hex_def hex_value_def is_digit_def less_eq_char_def)

lemma is_hex_not_special:
  "is_hex c \<Longrightarrow> c \<noteq> CHR ''_'' \<and> c \<noteq> CHR ''+'' \<and> c \<noteq> CHR ''-'' \<and> c \<noteq> CHR ''#'' \<and> \<not> int_space c"
  by (auto simp: is_hex_def is_digit_def int_space_def less_eq_char_def)

lemma int_space_not_special:
  "int_space c \<Longrightarrow> c \<noteq> CHR ''_'' \<and> c \<noteq> CHR ''+'' \<and> c \<noteq> CHR ''-'' \<and> c \<noteq> CHR ''0''"
  by (auto simp: int_space_def)

lemma not_hex_x: "\<not> is_hex (CHR ''x'')" "\<not> is_hex (CHR ''X'')" "\<not> int_space (CHR ''x'')" "\<not> int_space (CHR ''X'')"
  by (simp_all add: is_hex_def is_digit_def int_space_def less_eq_char_def)

lemma magnitude16_one:
  "int_magnitude 16 [b] = (if is_hex b then Inr (hex_value b) else Inl ValueError)"
  using is_hex_not_special [of b]
  by (auto simp: int_magnitude_def skip_prefix_def hex_iff hex_value_eq Let_def binary_base_def)

lemma magnitude16_two:
  "int_magnitude 16 [a, b] =
     (if is_hex a \<and> is_hex b then Inr (16 * hex_value a + hex_value b)
      else if is_hex a \<and> int_space b then Inr (hex_value a)
      else Inl ValueError)"
  using is_hex_not_special [of a] is_hex_not_special [of b] int_space_not_special [of b] not_hex_x
  by (auto simp: int_magnitude_def skip_prefix_def hex_iff hex_value_eq Let_def binary_base_def)

lemma magnitude_empty: "int_magnitude base [] = Inl ValueError"
  by (simp add: int_magnitude_def skip_prefix_def)

lemma py_int16_one: "py_int 16 [b] = (if is_hex b then Inr (hex_value b) else Inl ValueError)"
  using is_hex_not_special [of b]
  by (auto simp: py_int_def split_sign_def magnitude16_one magnitude_empty)

lemma py_int16_two:
  "py_int 16 [a, b] =
     (if is_hex a \<and> is_hex b then Inr (16 * hex_value a + hex_value b)
      else if (int_space a \<or> a = CHR ''+'') \<and> is_hex b then Inr (hex_value b)
      else if a = CHR ''-'' \<and> is_hex b then Inr (- hex_value b)
      else if is_hex a \<and> int_space b then Inr (hex_value a)
      else Inl ValueError)"
  using is_hex_not_special [of a] is_hex_not_special [of b]
    int_space_not_special [of a] int_space_not_special [of b]
  by (auto simp: py_int_def split_sign_def magnitude16_one magnitude16_two magnitude_empty)

lemma short_cases:
  "length (t :: string) \<le> 2 \<Longrightarrow> t = [] \<or> (\<exists>a. t = [a]) \<or> (\<exists>a b. t = [a, b])"
  by (cases t rule: accepted16.cases) auto

lemma py_int16_accepted:
  assumes "length t \<le> 2"
  shows "py_int 16 t = Inl ValueError \<longleftrightarrow> \<not> accepted16 t"
proof -
  from short_cases [OF assms] consider "t = []" | a where "t = [a]" | a b where "t = [a, b]"
    by blast
  then show ?thesis
  proof cases
    case 1
    then show ?thesis by (simp add: py_int_empty)
  next
    case 2
    then show ?thesis by (simp add: py_int16_one)
  next
    case 3
    then show ?thesis
      using is_hex_not_special [of a] is_hex_not_special [of b] int_space_not_special [of a]
      by (auto simp: py_int16_two)
  qed
qed

lemma py_int16_bounds:
  assumes "length t \<le> 2" and "py_int 16 t = Inr v"
  shows "- 15 \<le> v \<and> v \<le> 255 \<and> (CHR ''-'' \<notin> set t \<longrightarrow> 0 \<le> v)"
proof -
  from short_cases [OF assms(1)] consider "t = []" | a where "t = [a]" | a b where "t = [a, b]"
    by blast
  then show ?thesis
  proof cases
    case 1
    with assms(2) show ?thesis by (simp add: py_int_empty)
  next
    case 2
    with assms(2) show ?thesis
      using hex_value_range [of a] by (auto simp: py_int16_one split: if_splits)
  next
    case 3
    with assms(2) show ?thesis
      using hex_value_range [of a] hex_value_range [of b]
      by (auto simp: py_int16_two split: if_splits)
  qed
qed

lemma hex_to_rgba_fails_iff:
  "hex_to_rgba s = Inl ValueError \<longleftrightarrow>
     \<not> (accepted16 (slice (lstrip_chars ''#'' s) 0 2) \<and>
        accepted16 (slice (lstrip_chars ''#'' s) 2 4) \<and>
        accepted16 (slice (lstrip_chars ''#'' s) 4 6))"
proof -
  let ?h = "lstrip_chars ''#'' s"
  have l: "length (slice ?h 0 2) \<le> 2" "length (slice ?h 2 4) \<le> 2" "length (slice ?h 4 6) \<le> 2"
    by (simp_all add: slice_def)
  note a = py_int16_accepted [OF l(1)] py_int16_accepted [OF l(2)] py_int16_accepted [OF l(3)]
  show ?thesis
    using a py_int_error [of 16 "slice ?h 0 2"] py_int_error [of 16 "slice ?h 2 4"]
      py_int_error [of 16 "slice ?h 4 6"]
    by (auto simp: hex_to_rgba_def Let_def split: sum.splits)
qed

text \<open>
  C3, as the code has it. The claim that every string that is not exactly six hexadecimal
  digits fails does not hold: only the slices \<^verbatim>\<open>[0:2]\<close>, \<^verbatim>\<open>[2:4]\<close> and \<^verbatim>\<open>[4:6]\<close> are
  read, so the eight digits of \<^verbatim>\<open>"FFFFFF00"\<close> convert, to white.
\<close>

theorem hex_to_rgba_long_counterexample: "hex_to_rgba ''FFFFFF00'' = Inr (1, 1, 1)"
  by code_simp

text \<open>
  C3, amended. The conversion fails with \<^verbatim>\<open>ValueError\<close> (the FormatError of the
  specification), returning no triple, exactly when, after all leading \<^verbatim>\<open>#\<close> are stripped,
  one of the slices \<^verbatim>\<open>[0:2]\<close>, \<^verbatim>\<open>[2:4]\<close>, \<^verbatim>\<open>[4:6]\<close> is not accepted by \<^verbatim>\<open>int(_, 16)\<close>. It
  fails in particular whenever fewer than five characters remain, and for \<^verbatim>\<open>"#ZZZZZZ"\<close>
  and \<^verbatim>\<open>"#FFF"\<close>.
\<close>

theorem hex_to_rgba_failure:
  "(hex_to_rgba s = Inl ValueError \<longleftrightarrow>
     \<not> (accepted16 (slice (lstrip_chars ''#'' s) 0 2) \<and>
        accepted16 (slice (lstrip_chars ''#'' s) 2 4) \<and>
        accepted16 (slice (lstrip_chars ''#'' s) 4 6))) \<and>
   (length (lstrip_chars ''#'' s) < 5 \<longrightarrow> hex_to_rgba s = Inl ValueError) \<and>
   hex_to_rgba ''#ZZZZZZ'' = Inl ValueError \<and>
   hex_to_rgba ''#FFF'' = Inl ValueError"
proof (intro conjI impI)
  show "hex_to_rgba s = Inl ValueError \<longleftrightarrow>
     \<not> (accepted16 (slice (lstrip_chars ''#'' s) 0 2) \<and>
        accepted16 (slice (lstrip_chars ''#'' s) 2 4) \<and>
        accepted16 (slice (lstrip_chars ''#'' s) 4 6))"
    by (rule hex_to_rgba_fails_iff)
next
  assume "length (lstrip_chars ''#'' s) < 5"
  then have "slice (lstrip_chars ''#'' s) 4 6 = []" by (simp add: slice_def)
  then show "hex_to_rgba s = Inl ValueError" by (simp add: hex_to_rgba_fails_iff)
next
  show "hex_to_rgba ''#ZZZZZZ'' = Inl ValueError" by code_simp
  show "hex_to_rgba ''#FFF'' = Inl ValueError" by code_simp
qed

theorem hex_to_rgba_failure_witness:
  "length (lstrip_chars ''#'' ''##12AB'') < 5 \<and> hex_to_rgba ''##12AB'' = Inl ValueError \<and>
   \<not> accepted16 (slice (lstrip_chars ''#'' ''12G456'') 2 4) \<and> hex_to_rgba ''12G456'' = Inl ValueError"
proof -
  have 1: "length (lstrip_chars ''#'' ''##12AB'') < 5" by code_simp
  have 2: "\<not> accepted16 (slice (lstrip_chars ''#'' ''12G456'') 2 4)" by code_simp
  from 1 2 hex_to_rgba_failure [of "''##12AB''"] hex_to_rgba_failure [of "''12G456''"]
  show ?thesis by blast
qed

text \<open>
  C5. For every colour string of exactly six hexadecimal digits, with or without a leading
  \<^verbatim>\<open>#\<close>, the conversion returns the three channel values that its three pairs of digits
  denote, each divided by 255. In particular \<^verbatim>\<open>"#FFFFFF"\<close> gives \<^verbatim>\<open>(1, 1, 1)\<close> and
  \<^verbatim>\<open>"000000"\<close> gives \<^verbatim>\<open>(0, 0, 0)\<close>.
\<close>

theorem hex_to_rgba_six_digits:
  "(is_hex a \<and> is_hex b \<and> is_hex c \<and> is_hex d \<and> is_hex e \<and> is_hex f \<longrightarrow>
      hex_to_rgba [a, b, c, d, e, f] = Inr (channel a b, channel c d, channel e f) \<and>
      hex_to_rgba (CHR ''#'' # [a, b, c, d, e, f]) = Inr (channel a b, channel c d, channel e f)) \<and>
   hex_to_rgba ''#FFFFFF'' = Inr (1, 1, 1) \<and>
   hex_to_rgba ''000000'' = Inr (0, 0, 0)"
proof (intro conjI impI)
  assume h: "is_hex a \<and> is_hex b \<and> is_hex c \<and> is_hex d \<and> is_hex e \<and> is_hex f"
  then have na: "a \<noteq> CHR ''#''" using is_hex_not_special by blast
  then have l: "lstrip_chars ''#'' [a, b, c, d, e, f] = [a, b, c, d, e, f]"
    "lstrip_chars ''#'' (CHR ''#'' # [a, b, c, d, e, f]) = [a, b, c, d, e, f]"
    by (simp_all add: lstrip_chars_def)
  have s: "slice [a, b, c, d, e, f] 0 2 = [a, b]" "slice [a, b, c, d, e, f] 2 4 = [c, d]"
    "slice [a, b, c, d, e, f] 4 6 = [e, f]"
    by (simp_all add: slice_def)
  show "hex_to_rgba [a, b, c, d, e, f] = Inr (channel a b, channel c d, channel e f)"
    unfolding hex_to_rgba_def Let_def l s using h by (simp add: py_int16_two channel_def)
  show "hex_to_rgba (CHR ''#'' # [a, b, c, d, e, f]) = Inr (channel a b, channel c d, channel e f)"
    unfolding hex_to_rgba_def Let_def l s using h by (simp add: py_int16_two channel_def)
next
  show "hex_to_rgba ''#FFFFFF'' = Inr (1, 1, 1)" by code_simp
  show "hex_to_rgba ''000000'' = Inr (0, 0, 0)" by code_simp
qed

theorem hex_to_rgba_six_digits_witness:
  "is_hex CHR ''8'' \<and> is_hex CHR ''0'' \<and> is_hex CHR ''c'' \<and> is_hex CHR ''3'' \<and> is_hex CHR ''F'' \<and>
   hex_to_rgba ''80c3FF'' = Inr (128 / 255, 195 / 255, 1) \<and>
   hex_to_rgba ''#80c3FF'' = Inr (128 / 255, 195 / 255, 1)"
proof -
  have h: "is_hex CHR ''8''" "is_hex CHR ''0''" "is_hex CHR ''c''" "is_hex CHR ''3''" "is_hex CHR ''F''"
    by code_simp+
  have c: "channel CHR ''8'' CHR ''0'' = 128 / 255" "channel CHR ''c'' CHR ''3'' = 195 / 255"
    "channel CHR ''F'' CHR ''F'' = 1"
    by code_simp+
  from hex_to_rgba_six_digits [of "CHR ''8''" "CHR ''0''" "CHR ''c''" "CHR ''3''" "CHR ''F''" "CHR ''F''"] h c
  show ?thesis by simp
qed

text \<open>
  C10, as the code has it. The claim that every channel of a successful conversion is
  \<^verbatim>\<open>n / 255\<close> with \<^verbatim>\<open>0 <= n <= 255\<close> does not hold: \<^verbatim>\<open>int("-1", 16)\<close> is \<^verbatim>\<open>-1\<close>, so
  \<^verbatim>\<open>"-1-1-1"\<close> converts to three negative channels.
\<close>

theorem hex_to_rgba_negative_counterexample:
  "hex_to_rgba ''-1-1-1'' = Inr (- (1 / 255), - (1 / 255), - (1 / 255))"
  by code_simp

text \<open>
  C10, amended. Whenever the conversion returns, every channel is \<^verbatim>\<open>n / 255\<close> for an
  integer \<^verbatim>\<open>n\<close> with \<^verbatim>\<open>-15 <= n <= 255\<close>; and \<^verbatim>\<open>0 <= n\<close>, so that the channel lies in
  the closed interval from 0 to 1, when none of the first six characters after the
  stripping is a minus sign.
\<close>

theorem hex_to_rgba_channel_range:
  assumes "hex_to_rgba s = Inr (r, g, b)"
  shows "\<exists>n1 n2 n3. r = of_int n1 / 255 \<and> g = of_int n2 / 255 \<and> b = of_int n3 / 255 \<and>
           - 15 \<le> n1 \<and> n1 \<le> 255 \<and> - 15 \<le> n2 \<and> n2 \<le> 255 \<and> - 15 \<le> n3 \<and> n3 \<le> 255 \<and>
           (CHR ''-'' \<notin> set (take 6 (lstrip_chars ''#'' s)) \<longrightarrow> 0 \<le> n1 \<and> 0 \<le> n2 \<and> 0 \<le> n3)"
proof -
  let ?h = "lstrip_chars ''#'' s"
  from assms obtain n1 where p1: "py_int 16 (slice ?h 0 2) = Inr n1"
    by (cases "py_int 16 (slice ?h 0 2)") (simp_all add: hex_to_rgba_def Let_def)
  from assms p1 obtain n2 where p2: "py_int 16 (slice ?h 2 4) = Inr n2"
    by (cases "py_int 16 (slice ?h 2 4)") (simp_all add: hex_to_rgba_def Let_def)
  from assms p1 p2 obtain n3 where p3: "py_int 16 (slice ?h 4 6) = Inr n3"
    by (cases "py_int 16 (slice ?h 4 6)") (simp_all add: hex_to_rgba_def Let_def)
  have "Inr (of_int n1 / 255, of_int n2 / 255, of_int n3 / 255) = (Inr (r, g, b) :: error + _)"
    using assms unfolding hex_to_rgba_def Let_def p1 p2 p3 by simp
  then have v: "r = of_int n1 / 255" "g = of_int n2 / 255" "b = of_int n3 / 255"
    by blast+
  have l: "length (slice ?h 0 2) \<le> 2" "length (slice ?h 2 4) \<le> 2" "length (slice ?h 4 6) \<le> 2"
    by (simp_all add: slice_def)
  have s1: "set (slice ?h 0 2) \<subseteq> set (take 6 ?h)"
    by (simp add: slice_def set_take_subset_set_take)
  have "slice ?h 2 4 = drop 2 (take 4 ?h)" by (simp add: slice_def drop_take)
  then have "set (slice ?h 2 4) \<subseteq> set (take 4 ?h)" by (simp add: set_drop_subset)
  also have "\<dots> \<subseteq> set (take 6 ?h)" by (simp add: set_take_subset_set_take)
  finally have s2: "set (slice ?h 2 4) \<subseteq> set (take 6 ?h)" .
  have "slice ?h 4 6 = drop 4 (take 6 ?h)" by (simp add: slice_def drop_take)
  then have s3: "set (slice ?h 4 6) \<subseteq> set (take 6 ?h)" by (simp add: set_drop_subset)
  note b1 = py_int16_bounds [OF l(1) p1]
  note b2 = py_int16_bounds [OF l(2) p2]
  note b3 = py_int16_bounds [OF l(3) p3]
  have "r = of_int n1 / 255 \<and> g = of_int n2 / 255 \<and> b = of_int n3 / 255 \<and>
           - 15 \<le> n1 \<and> n1 \<le> 255 \<and> - 15 \<le> n2 \<and> n2 \<le> 255 \<and> - 15 \<le> n3 \<and> n3 \<le> 255 \<and>
           (CHR ''-'' \<notin> set (take 6 ?h) \<longrightarrow> 0 \<le> n1 \<and> 0 \<le> n2 \<and> 0 \<le> n3)"
    using v b1 b2 b3 s1 s2 s3 by blast
  then show ?thesis by blast
qed

theorem hex_to_rgba_channel_range_witness:
  "hex_to_rgba ''#80c3FF'' = Inr (128 / 255, 195 / 255, 1) \<and>
   (\<exists>n1 n2 n3. (128 / 255 :: rat) = of_int n1 / 255 \<and> (195 / 255 :: rat) = of_int n2 / 255 \<and>
      (1 :: rat) = of_int n3 / 255 \<and> 0 \<le> n1 \<and> n1 \<le> 255 \<and> 0 \<le> n2 \<and> n2 \<le> 255 \<and>
      0 \<le> n3 \<and> n3 \<le> 255)"
proof -
  have e: "hex_to_rgba ''#80c3FF'' = Inr (128 / 255, 195 / 255, 1)" by code_simp
  have m: "CHR ''-'' \<notin> set (take 6 (lstrip_chars ''#'' ''#80c3FF''))" by code_simp
  from hex_to_rgba_channel_range [OF e] m e show ?thesis by blast
qed

section \<open>The watermark grid\<close>

lemma range_up_mem:
  "0 < step \<Longrightarrow> x \<in> set (range_up a stop step) \<longleftrightarrow> a \<le> x \<and> x < stop \<and> step dvd (x - a)"
proof (induction a stop step rule: range_up.induct)
  case (1 a stop step)
  show ?case
  proof (cases "a < stop")
    case True
    have r: "range_up a stop step = a # range_up (a + step) stop step"
      using True "1.prems" by (subst range_up.simps) simp
    have ih: "x \<in> set (range_up (a + step) stop step) \<longleftrightarrow>
        a + step \<le> x \<and> x < stop \<and> step dvd (x - (a + step))"
      using "1.IH" True "1.prems" by simp
    have e: "x - (a + step) = (x - a) - step" by simp
    have d: "step dvd (x - (a + step)) \<longleftrightarrow> step dvd (x - a)"
      unfolding e by (metis dvd_refl dvd_diff diff_add_cancel dvd_add)
    have g: "a < x \<Longrightarrow> step dvd (x - a) \<Longrightarrow> a + step \<le> x"
      using zdvd_imp_le [of step "x - a"] by simp
    show ?thesis
    proof (cases "x = a")
      case True
      with \<open>a < stop\<close> show ?thesis unfolding r by simp
    next
      case False
      then show ?thesis unfolding r using ih d g "1.prems" by auto
    qed
  next
    case False
    then show ?thesis by (subst range_up.simps) auto
  qed
qed

lemma origins_append: "origins (xs @ ys) = origins xs @ origins ys"
  by (induction xs rule: origins.induct) simp_all

lemma origins_tiles:
  "origins (ops (fold (draw_tile stamp_label x) ys can)) = origins (ops can) @ map (Pair x) ys"
  by (induction ys arbitrary: can) (simp_all add: draw_tile_def issue_def origins_append)

lemma grid_loop_origins:
  assumes "step_y \<noteq> 0"
  shows "\<exists>can'. grid_loop stamp_label step_y height xs can = Inr can' \<and>
     pagesize can' = pagesize can \<and>
     (\<forall>ys. py_range (- 100) (py_trunc height + 100) step_y = Inr ys \<longrightarrow>
        origins (ops can') = origins (ops can) @ concat (map (\<lambda>x. map (Pair x) ys) xs))"
proof (induction xs arbitrary: can)
  case Nil
  then show ?case by simp
next
  case (Cons x xs)
  obtain ys where ys: "py_range (- 100) (py_trunc height + 100) step_y = Inr ys"
    using assms by (cases "0 < step_y") (simp_all add: py_range_def)
  have p: "pagesize (fold (draw_tile stamp_label x) ys can) = pagesize can"
    by (induction ys arbitrary: can) (simp_all add: draw_tile_def issue_def)
  from Cons [of "fold (draw_tile stamp_label x) ys can"] show ?case
    by (auto simp: ys origins_tiles p)
qed

lemma grid_origins:
  "\<exists>can'. draw_watermark_grid can stamp_label 150 100 width height = Inr can' \<and>
     origins (ops can') = origins (ops can) @
       concat (map (\<lambda>x. map (Pair x) (range_up (- 100) (py_trunc height + 100) 100))
                   (range_up (- 100) (py_trunc width + 100) 150))"
  using grid_loop_origins [of 100 stamp_label height "range_up (- 100) (py_trunc width + 100) 150" can]
  by (auto simp: draw_watermark_grid_def py_range_def)

lemma grid_origin_mem:
  assumes "draw_watermark_grid can stamp_label 150 100 width height = Inr can'"
    and "- 100 \<le> x" "x < py_trunc width + 100" "150 dvd (x + 100)"
    and "- 100 \<le> y" "y < py_trunc height + 100" "100 dvd (y + 100)"
  shows "(x, y) \<in> set (origins (ops can'))"
proof -
  have "x \<in> set (range_up (- 100) (py_trunc width + 100) 150)"
    "y \<in> set (range_up (- 100) (py_trunc height + 100) 100)"
    using assms by (simp_all add: range_up_mem)
  then show ?thesis
    using grid_origins [of can stamp_label width height] assms(1) by auto
qed

lemma column_below:
  fixes p :: rat and n :: int
  assumes "0 \<le> p" and "\<lfloor>p\<rfloor> \<le> n" and "0 < s" and "s \<le> 200"
  shows "\<exists>x. - 100 \<le> x \<and> x < n + 100 \<and> s dvd (x + 100) \<and> of_int x \<le> p \<and> p < of_int x + of_int s"
proof -
  define q where "q = \<lfloor>p\<rfloor>"
  define x where "x = q - (q + 100) mod s"
  have q0: "0 \<le> q" using assms(1) by (simp add: q_def)
  have m: "0 \<le> (q + 100) mod s" "(q + 100) mod s < s"
    using assms(3) by simp_all
  have m2: "(q + 100) mod s \<le> q + 100"
    using q0 assms(3) by (intro zmod_le_nonneg_dividend) simp
  have d: "s dvd (x + 100)"
  proof -
    have "x + 100 = (q + 100) - (q + 100) mod s" by (simp add: x_def)
    then show ?thesis by (simp add: minus_mod_eq_mult_div)
  qed
  have 1: "- 100 \<le> x" using m2 by (simp add: x_def)
  have 2: "x \<le> q" using m by (simp add: x_def)
  have 3: "q < x + s" using m by (simp add: x_def)
  have 4: "x < n + 100" using 2 assms(2) by (simp add: q_def)
  have "of_int x \<le> (of_int q :: rat)" using 2 by simp
  also have "\<dots> \<le> p" by (simp add: q_def)
  finally have 5: "of_int x \<le> p" .
  have "p < of_int q + 1" unfolding q_def by linarith
  also have "\<dots> \<le> of_int (x + s)" using 3 by (metis of_int_1 of_int_add of_int_le_iff zless_imp_add1_zle)
  finally have 6: "p < of_int x + of_int s" by simp
  from 1 4 d 5 6 show ?thesis by blast
qed

lemma last_column:
  fixes n :: int
  assumes "0 \<le> n" and "0 < s" and "s \<le> 200"
  shows "\<exists>x. - 100 \<le> x \<and> x < n + 100 \<and> s dvd (x + 100) \<and> n + 100 - s \<le> x"
proof -
  define x where "x = (n + 99) - (n + 199) mod s"
  have m: "0 \<le> (n + 199) mod s" "(n + 199) mod s < s"
    using assms(2) by simp_all
  have m2: "(n + 199) mod s \<le> n + 199"
    using assms by (intro zmod_le_nonneg_dividend) simp
  have "x + 100 = (n + 199) - (n + 199) mod s" by (simp add: x_def)
  then have d: "s dvd (x + 100)" by (simp add: minus_mod_eq_mult_div)
  from m m2 d show ?thesis by (intro exI [of _ x]) (simp add: x_def)
qed

lemma create_watermark_canvas_grid:
  "create_watermark_canvas stamp_label stamp_size stamp_color stamp_transparency = Inr wm \<longleftrightarrow>
     (\<exists>r g b can'. hex_to_rgba stamp_color = Inr (r, g, b) \<and>
        draw_watermark_grid
          (issue [SetFillColorRGB r g b, SetFillAlpha stamp_transparency, SaveState]
             (issue [SetFont ''Helvetica'' stamp_size] \<lparr>pagesize = letter, ops = []\<rparr>))
          stamp_label 150 100 612 792 = Inr can' \<and>
        wm = issue [Save] can')"
  by (auto simp: create_watermark_canvas_def Let_def letter_def split: sum.splits prod.splits)

lemma create_watermark_canvas_succeeds:
  assumes "hex_to_rgba stamp_color = Inr (r, g, b)"
  shows "\<exists>wm. create_watermark_canvas stamp_label stamp_size stamp_color stamp_transparency = Inr wm"
  using grid_origins [of "issue [SetFillColorRGB r g b, SetFillAlpha stamp_transparency, SaveState]
             (issue [SetFont ''Helvetica'' stamp_size] \<lparr>pagesize = letter, ops = []\<rparr>)"
           stamp_label 612 792] assms
  unfolding create_watermark_canvas_grid by blast

text \<open>
  C2, as the code has it. The claim that the tile origins reach an \<^verbatim>\<open>x\<close> of at least the
  page width does not hold for every width: the columns stop below \<^verbatim>\<open>int(width) + 100\<close>
  and are 150 apart, so on a page 51 wide and 0 high the tiles are drawn at \<^verbatim>\<open>x = -100\<close>
  and \<^verbatim>\<open>x = 50\<close> only, and 50 is less than 51.
\<close>

theorem grid_short_counterexample:
  "draw_watermark_grid \<lparr>pagesize = (51, 0), ops = []\<rparr> ''X'' 150 100 51 0 =
     Inr \<lparr>pagesize = (51, 0), ops =
       [SaveState, Translate (- 100) (- 100), Rotate 45, DrawCentredString 0 0 ''X'', RestoreState,
        SaveState, Translate (- 100) 0, Rotate 45, DrawCentredString 0 0 ''X'', RestoreState,
        SaveState, Translate 50 (- 100), Rotate 45, DrawCentredString 0 0 ''X'', RestoreState,
        SaveState, Translate 50 0, Rotate 45, DrawCentredString 0 0 ''X'', RestoreState]\<rparr>"
  by code_simp

text \<open>
  C2, amended. For every page width and height that are not negative, with steps 150 and
  100, the grid is drawn, its tile origins start at \<^verbatim>\<open>(-100, -100)\<close> and reach an \<^verbatim>\<open>x\<close>
  of at least \<^verbatim>\<open>int(width) - 50\<close> and a \<^verbatim>\<open>y\<close> of at least \<^verbatim>\<open>int(height)\<close>, and every
  point of the page has a tile origin less than 150 to its left and less than 100 below
  it, so that no band wider than the horizontal step or taller than the vertical step is
  left unstamped within the page. On the letter page that \<^verbatim>\<open>create_watermark_canvas\<close>
  draws on, the origins do reach beyond both page dimensions, at \<^verbatim>\<open>(650, 800)\<close>.
\<close>

theorem grid_covers_page:
  assumes "0 \<le> width" and "0 \<le> height"
  shows "(\<exists>can'. draw_watermark_grid can stamp_label 150 100 width height = Inr can' \<and>
     (- 100, - 100) \<in> set (origins (ops can')) \<and>
     (\<exists>x y. (x, y) \<in> set (origins (ops can')) \<and>
        py_trunc width - 50 \<le> x \<and> py_trunc height \<le> y) \<and>
     (\<forall>p q. 0 \<le> p \<and> p \<le> width \<and> 0 \<le> q \<and> q \<le> height \<longrightarrow>
        (\<exists>x y. (x, y) \<in> set (origins (ops can')) \<and>
           of_int x \<le> p \<and> p < of_int x + 150 \<and> of_int y \<le> q \<and> q < of_int y + 100))) \<and>
   (create_watermark_canvas stamp_label stamp_size stamp_color stamp_transparency = Inr wm \<longrightarrow>
      (- 100, - 100) \<in> set (origins (ops wm)) \<and>
      (650, 800) \<in> set (origins (ops wm)) \<and> fst letter \<le> 650 \<and> snd letter \<le> 800)"
proof
  obtain can' where c: "draw_watermark_grid can stamp_label 150 100 width height = Inr can'"
    using grid_origins [of can stamp_label width height] by blast
  have tw: "0 \<le> py_trunc width" and th: "0 \<le> py_trunc height"
    using assms by (simp_all add: py_trunc_def)
  have a: "(- 100, - 100) \<in> set (origins (ops can'))"
    using tw th by (intro grid_origin_mem [OF c]) simp_all
  have b: "\<exists>x y. (x, y) \<in> set (origins (ops can')) \<and>
        py_trunc width - 50 \<le> x \<and> py_trunc height \<le> y"
  proof -
    from last_column [OF tw, of 150] obtain x where
      x: "- 100 \<le> x" "x < py_trunc width + 100" "150 dvd (x + 100)" "py_trunc width - 50 \<le> x"
      by auto
    from last_column [OF th, of 100] obtain y where
      y: "- 100 \<le> y" "y < py_trunc height + 100" "100 dvd (y + 100)" "py_trunc height \<le> y"
      by auto
    from grid_origin_mem [OF c x(1-3) y(1-3)] x(4) y(4) show ?thesis by blast
  qed
  have d: "\<exists>x y. (x, y) \<in> set (origins (ops can')) \<and>
           of_int x \<le> p \<and> p < of_int x + 150 \<and> of_int y \<le> q \<and> q < of_int y + 100"
    if pq: "0 \<le> p \<and> p \<le> width \<and> 0 \<le> q \<and> q \<le> height" for p q
  proof -
    have fp: "\<lfloor>p\<rfloor> \<le> py_trunc width" and fq: "\<lfloor>q\<rfloor> \<le> py_trunc height"
      using pq assms by (simp_all add: py_trunc_def floor_mono)
    from column_below [of p "py_trunc width" 150] pq fp obtain x where
      x: "- 100 \<le> x" "x < py_trunc width + 100" "150 dvd (x + 100)" "of_int x \<le> p" "p < of_int x + 150"
      by auto
    from column_below [of q "py_trunc height" 100] pq fq obtain y where
      y: "- 100 \<le> y" "y < py_trunc height + 100" "100 dvd (y + 100)" "of_int y \<le> q" "q < of_int y + 100"
      by auto
    from grid_origin_mem [OF c x(1-3) y(1-3)] x(4,5) y(4,5) show ?thesis by blast
  qed
  from c a b d show "\<exists>can'. draw_watermark_grid can stamp_label 150 100 width height = Inr can' \<and>
     (- 100, - 100) \<in> set (origins (ops can')) \<and>
     (\<exists>x y. (x, y) \<in> set (origins (ops can')) \<and>
        py_trunc width - 50 \<le> x \<and> py_trunc height \<le> y) \<and>
     (\<forall>p q. 0 \<le> p \<and> p \<le> width \<and> 0 \<le> q \<and> q \<le> height \<longrightarrow>
        (\<exists>x y. (x, y) \<in> set (origins (ops can')) \<and>
           of_int x \<le> p \<and> p < of_int x + 150 \<and> of_int y \<le> q \<and> q < of_int y + 100))"
    by blast
next
  show "create_watermark_canvas stamp_label stamp_size stamp_color stamp_transparency = Inr wm \<longrightarrow>
      (- 100, - 100) \<in> set (origins (ops wm)) \<and>
      (650, 800) \<in> set (origins (ops wm)) \<and> fst letter \<le> 650 \<and> snd letter \<le> 800"
  proof
    assume "create_watermark_canvas stamp_label stamp_size stamp_color stamp_transparency = Inr wm"
    then obtain can0 can' where
      g: "draw_watermark_grid can0 stamp_label 150 100 612 792 = Inr can'" and w: "wm = issue [Save] can'"
      unfolding create_watermark_canvas_grid by blast
    have o: "origins (ops wm) = origins (ops can')"
      by (simp add: w issue_def origins_append)
    have t: "py_trunc 612 = 612" "py_trunc 792 = 792" by (simp_all add: py_trunc_def)
    have 1: "(- 100, - 100) \<in> set (origins (ops can'))"
      by (rule grid_origin_mem [OF g]) (simp_all add: t)
    have 2: "(650, 800) \<in> set (origins (ops can'))"
      by (rule grid_origin_mem [OF g]) (simp_all add: t)
    from 1 2 show "(- 100, - 100) \<in> set (origins (ops wm)) \<and>
      (650, 800) \<in> set (origins (ops wm)) \<and> fst letter \<le> 650 \<and> snd letter \<le> 800"
      by (simp add: o letter_def)
  qed
qed

theorem grid_covers_page_witness:
  "(\<exists>can'. draw_watermark_grid \<lparr>pagesize = (51, 0), ops = []\<rparr> ''X'' 150 100 51 0 = Inr can' \<and>
     (- 100, - 100) \<in> set (origins (ops can')) \<and>
     (\<exists>x y. (x, y) \<in> set (origins (ops can')) \<and> 1 \<le> x \<and> 0 \<le> y)) \<and>
   (\<exists>wm. create_watermark_canvas ''X'' 12 ''#FF0000'' (1 / 2) = Inr wm \<and>
     (650, 800) \<in> set (origins (ops wm)))"
proof -
  have t: "py_trunc 51 = 51" "py_trunc 0 = 0" by (simp_all add: py_trunc_def)
  have h: "(0::rat) \<le> 51" "(0::rat) \<le> 0" by simp_all
  have "hex_to_rgba ''#FF0000'' = Inr (1, 0, 0)" by code_simp
  from create_watermark_canvas_succeeds [OF this, of "''X''" 12 "1 / 2"]
  obtain wm where w: "create_watermark_canvas ''X'' 12 ''#FF0000'' (1 / 2) = Inr wm" by blast
  from grid_covers_page [OF h, where can = "\<lparr>pagesize = (51, 0), ops = []\<rparr>"
      and stamp_label = "''X''" and stamp_size = 12 and stamp_color = "''#FF0000''"
      and stamp_transparency = "1 / 2" and wm = wm] w
  show ?thesis unfolding t by fastforce
qed

section \<open>The watermark merge\<close>

lemma foldl_snoc_map: "foldl (\<lambda>writer page. writer @ [f page]) acc xs = acc @ map f xs"
  by (induction xs arbitrary: acc) simp_all

lemma merge_watermark_map:
  "merge_watermark_into_pdf merge_page pdf (watermark_page # further) =
     Inr (map (\<lambda>page. merge_page page watermark_page False) pdf)"
  by (simp add: merge_watermark_into_pdf_def py_index_def foldl_snoc_map)

text \<open>
  C8. When the watermark document has a page, the merge succeeds and the output has exactly
  as many pages as the input; every output page is the input page at the same position
  after the library's merge with the first watermark page and \<^verbatim>\<open>over = False\<close>. Under the
  page merge of the specification this output page is the watermark's content, painted
  first, followed by the whole content of the input page, unaltered and in its order.
\<close>

theorem merge_watermark_background:
  "(\<exists>out. merge_watermark_into_pdf merge_page pdf (watermark_page # further) = Inr out \<and>
      length out = length pdf \<and>
      (\<forall>i < length pdf. out ! i = merge_page (pdf ! i) watermark_page False)) \<and>
   (\<exists>out. merge_watermark_into_pdf layered_merge doc (watermark_layers # others) = Inr out \<and>
      length out = length doc \<and>
      (\<forall>i < length doc. out ! i = watermark_layers @ doc ! i))"
  by (simp add: merge_watermark_map layered_merge_def)

theorem merge_watermark_background_witness:
  "merge_watermark_into_pdf layered_merge [[1 :: nat], [2, 3]] [[9]] = Inr [[9, 1], [9, 2, 3]] \<and>
   (\<exists>out. merge_watermark_into_pdf layered_merge [[1 :: nat], [2, 3]] [[9]] = Inr out \<and>
      length out = 2 \<and> out ! 1 = [9, 2, 3])"
proof -
  have e: "merge_watermark_into_pdf layered_merge [[1 :: nat], [2, 3]] [[9]] = Inr [[9, 1], [9, 2, 3]]"
    by (simp add: merge_watermark_into_pdf_def py_index_def layered_merge_def)
  from merge_watermark_background [where doc = "[[1 :: nat], [2, 3]]" and watermark_layers = "[9]"
      and others = "[]" and pdf = "[[1 :: nat], [2, 3]]" and watermark_page = "[9]" and further = "[]"
      and merge_page = layered_merge] e
  show ?thesis by simp
qed

section \<open>The literal \<^verbatim>\<open>all\<close>\<close>

lemma foldl_text_concat:
  "foldl (\<lambda>text page. text @ CHR '' '' # f page) acc reader =
     acc @ concat (map (\<lambda>page. CHR '' '' # f page) reader)"
  by (induction reader arbitrary: acc) simp_all

text \<open>
  C9. The extraction operations never pass the literal \<^verbatim>\<open>all\<close> to the parser. For every
  reader, with the page specification \<^verbatim>\<open>all\<close> the text extraction returns the text of every
  page of the document in order and the image extraction the images of every page, and
  neither calls \<^verbatim>\<open>parse_page_numbers\<close>; with any other specification each calls it once, on
  that specification.
\<close>

theorem all_bypasses_parser:
  "extract_text page_extract_text reader ''all'' mode =
     (Inr (concat (map (\<lambda>page. '' '' @ page_extract_text mode page) reader)), []) \<and>
   extract_images page_images reader ''all'' =
     (Inr (foldl (\<lambda>images page. dict_update images (dict_update [] (page_images page))) [] reader), []) \<and>
   (page_numbers_str \<noteq> ''all'' \<longrightarrow>
      snd (extract_text page_extract_text reader page_numbers_str mode) = [page_numbers_str] \<and>
      snd (extract_images page_images reader page_numbers_str) = [page_numbers_str]) \<and>
   ''all'' \<notin> set (snd (extract_text page_extract_text reader page_numbers_str mode)) \<and>
   ''all'' \<notin> set (snd (extract_images page_images reader page_numbers_str))"
  by (auto simp: extract_text_def extract_images_def foldl_text_concat split: sum.splits)

theorem all_bypasses_parser_witness:
  "''2'' \<noteq> ''all'' \<and>
   extract_text (\<lambda>m p. p) [''a'', ''b'', ''c''] ''2'' Layout = (Inr '' b'', [''2'']) \<and>
   snd (extract_images (\<lambda>p. [(p, p)]) [''a'', ''b'', ''c''] ''2'') = [''2''] \<and>
   extract_text (\<lambda>m p. p) [''a'', ''b'', ''c''] ''all'' Layout = (Inr '' a b c'', [])"
proof -
  have n: "''2'' \<noteq> ''all''" by simp
  have e: "extract_text (\<lambda>m p. p) [''a'', ''b'', ''c''] ''2'' Layout = (Inr '' b'', [''2''])"
    by code_simp
  from all_bypasses_parser [where page_numbers_str = "''2''" and page_extract_text = "\<lambda>m p. p"
      and reader = "[''a'', ''b'', ''c'']" and mode = Layout and page_images = "\<lambda>p. [(p, p)]"] n e
  show ?thesis by simp
qed

end
